theory Spec2Isabelle
  imports Main "HOL-Library.Option_ord"
begin

section \<open>Errors\<close>

text \<open>
  Every way the model-building code of \<^verbatim>\<open>TopoFactory.py\<close> can leave a function
  without returning is a value of \<open>error\<close>:
  \<^item> \<open>ValueError lit\<close>: \<^verbatim>\<open>float(lit)\<close> or \<^verbatim>\<open>int(lit, base)\<close> rejected the
    literal \<open>lit\<close> (the message quotes it), or \<^verbatim>\<open>int(nan)\<close>;
  \<^item> \<open>OverflowError\<close>: \<^verbatim>\<open>int(float('inf'))\<close>;
  \<^item> \<open>TypeError\<close>: an ordering comparison or an addition with \<^verbatim>\<open>None\<close>;
  \<^item> \<open>IDCollisionError kind id comp\<close>: the message printed before
    \<^verbatim>\<open>sys.exit(-1)\<close>, "... ID id in component comp is used more than once";
  \<^item> \<open>IDCollisionWithCommand kind id comp\<close>: the message "... opcode id in component
    comp is the same as another command id", again followed by \<^verbatim>\<open>sys.exit(-1)\<close>;
  \<^item> \<open>BaseIdCollision name base prev_name prev_id prev_window\<close>: the
    \<^verbatim>\<open>Exception\<close> raised by pass 3 of \<^verbatim>\<open>__compute_base_ids\<close>.
\<close>

datatype id_kind =
  EventID | ChannelID | CommandID | ParameterID | ParameterSetOpcode | ParameterSaveOpcode

datatype error =
    ValueError string
  | OverflowError
  | TypeError
  | IDCollisionError id_kind int string
  | IDCollisionWithCommand id_kind int string
  | BaseIdCollision string int string int int

section \<open>The Python builtins the code calls\<close>

text \<open>
  Strings are lists of code points below 256.  \<open>py_isspace\<close> is the whitespace
  that \<^verbatim>\<open>int()\<close> and \<^verbatim>\<open>float()\<close> strip from both ends of a \<^verbatim>\<open>str\<close>:
  the ASCII whitespace (tab to carriage return, and the space) and, of the other code
  points, the next-line and the no-break space characters.
\<close>

definition py_isspace :: "char \<Rightarrow> bool" where
  "py_isspace c =
     (let n = (of_char c :: nat)
      in (9 \<le> n \<and> n \<le> 13) \<or> n = 32 \<or> n = 133 \<or> n = 160)"

definition py_strip :: "string \<Rightarrow> string" where
  "py_strip s = rev (dropWhile py_isspace (rev (dropWhile py_isspace s)))"

definition digit_val :: "char \<Rightarrow> nat option" where
  "digit_val c =
     (let n = (of_char c :: nat)
      in if 48 \<le> n \<and> n \<le> 57 then Some (n - 48)
         else if 97 \<le> n \<and> n \<le> 122 then Some (n - 87)
         else if 65 \<le> n \<and> n \<le> 90 then Some (n - 55)
         else None)"

definition is_digit :: "char \<Rightarrow> bool" where
  "is_digit c = (let n = (of_char c :: nat) in 48 \<le> n \<and> n \<le> 57)"

definition take_sign :: "string \<Rightarrow> bool \<times> string" where
  "take_sign s =
     (case s of
        [] \<Rightarrow> (False, s)
      | c # r \<Rightarrow>
          if c = CHR ''-'' then (True, r)
          else if c = CHR ''+'' then (False, r)
          else (False, s))"

subsection \<open>\<^verbatim>\<open>int(s, base)\<close>\<close>

text \<open>
  \<^verbatim>\<open>int(s, base)\<close> on a string: surrounding whitespace is dropped, then an
  optional sign, then (base 0) the base is read off the prefix, then a prefix
  \<^verbatim>\<open>0x\<close>, \<^verbatim>\<open>0o\<close> or \<^verbatim>\<open>0b\<close> fitting the base and one underscore after it
  are skipped, then digits follow with single underscores between them.  In base 0 a
  literal with a leading zero and no prefix is accepted only when its value is zero.
  The interpreter's limit on the number of decimal digits is a run-time setting and is
  left out.
\<close>

definition detect_base :: "string \<Rightarrow> nat \<times> bool" where
  "detect_base t =
     (case t of
        [] \<Rightarrow> (10, False)
      | c # r \<Rightarrow>
          if c \<noteq> CHR ''0'' then (10, False)
          else (case r of
                  [] \<Rightarrow> (10, True)
                | d # _ \<Rightarrow>
                    if d = CHR ''x'' \<or> d = CHR ''X'' then (16, False)
                    else if d = CHR ''o'' \<or> d = CHR ''O'' then (8, False)
                    else if d = CHR ''b'' \<or> d = CHR ''B'' then (2, False)
                    else (10, True)))"

definition skip_prefix :: "nat \<Rightarrow> string \<Rightarrow> string" where
  "skip_prefix b t =
     (case t of
        c # d # r \<Rightarrow>
          if c = CHR ''0'' \<and>
             ((b = 16 \<and> (d = CHR ''x'' \<or> d = CHR ''X'')) \<or>
              (b = 8 \<and> (d = CHR ''o'' \<or> d = CHR ''O'')) \<or>
              (b = 2 \<and> (d = CHR ''b'' \<or> d = CHR ''B'')))
          then (case r of
                  [] \<Rightarrow> r
                | u # r' \<Rightarrow> if u = CHR ''_'' then r' else r)
          else t
      | _ \<Rightarrow> t)"

text \<open>
  The digit scan: \<open>pu\<close> says that the previous character was an underscore,
  \<open>n\<close> counts the digits read and \<open>acc\<close> is their value so far.
\<close>

fun scan_digits :: "nat \<Rightarrow> bool \<Rightarrow> nat \<Rightarrow> int \<Rightarrow> string \<Rightarrow> (nat \<times> int) option" where
  "scan_digits b pu n acc [] = (if pu then None else Some (n, acc))"
| "scan_digits b pu n acc (c # cs) =
     (if c = CHR ''_'' then (if pu then None else scan_digits b True n acc cs)
      else (case digit_val c of
              None \<Rightarrow> None
            | Some d \<Rightarrow> if d < b then scan_digits b False (Suc n) (acc * int b + int d) cs else None))"

definition py_int :: "nat \<Rightarrow> string \<Rightarrow> error + int" where
  "py_int base s =
     (let (neg, t) = take_sign (py_strip s);
          (b, error_if_nonzero) = (if base = 0 then detect_base t else (base, False));
          t1 = skip_prefix b t
      in if t1 \<noteq> [] \<and> hd t1 = CHR ''_'' then Inl (ValueError s)
         else (case scan_digits b False 0 0 t1 of
                 None \<Rightarrow> Inl (ValueError s)
               | Some (n, v) \<Rightarrow>
                   if error_if_nonzero \<and> v \<noteq> 0 then Inl (ValueError s)
                   else if n = 0 then Inl (ValueError s)
                   else Inr (if neg then - v else v)))"

subsection \<open>\<^verbatim>\<open>float(s)\<close> and \<^verbatim>\<open>int(x)\<close> on a float\<close>

text \<open>
  A float is \<open>Finite neg m p\<close>, the number \<open>\<plusminus> m * 2 ^ p\<close>, an infinity or a
  NaN.  \<open>round_binary64 neg num den\<close> is the binary64 value nearest to
  \<open>num / den\<close> (ties to even), which is what \<^verbatim>\<open>float()\<close> returns for a decimal
  literal of that value; a value too large becomes an infinity.
\<close>

datatype pyfloat = Finite bool int int | Infinity bool | NaN

fun bit_length :: "nat \<Rightarrow> nat" where
  "bit_length n = (if n = 0 then 0 else Suc (bit_length (n div 2)))"

declare bit_length.simps [simp del]

definition round_binary64 :: "bool \<Rightarrow> int \<Rightarrow> int \<Rightarrow> pyfloat" where
  "round_binary64 neg num den =
     (if num = 0 then Finite neg 0 0
      else
        let k = int (bit_length (nat num)) - int (bit_length (nat den));
            e = (if (if 0 \<le> k then den * 2 ^ nat k \<le> num else den \<le> num * 2 ^ nat (- k))
                 then k else k - 1);
            p = max (e - 52) (- 1074);
            n' = (if 0 \<le> p then num else num * 2 ^ nat (- p));
            d' = (if 0 \<le> p then den * 2 ^ nat p else den);
            q = n' div d';
            r = n' mod d';
            m = (if 2 * r < d' then q
                 else if d' < 2 * r then q + 1
                 else if even q then q else q + 1)
        in if 0 \<le> p \<and> 2 ^ 1024 \<le> m * 2 ^ nat p then Infinity neg
           else Finite neg m p)"

text \<open>
  Underscores in a float literal must stand between two digits; they are checked over
  the whole string and removed before anything else is looked at.
\<close>

fun underscores_ok :: "char \<Rightarrow> string \<Rightarrow> bool" where
  "underscores_ok prev [] = (prev \<noteq> CHR ''_'')"
| "underscores_ok prev (c # cs) =
     (if c = CHR ''_'' then is_digit prev \<and> underscores_ok c cs
      else (prev = CHR ''_'' \<longrightarrow> is_digit c) \<and> underscores_ok c cs)"

definition py_tolower :: "char \<Rightarrow> char" where
  "py_tolower c =
     (let n = (of_char c :: nat) in if 65 \<le> n \<and> n \<le> 90 then char_of (n + 32) else c)"

definition int_of_digits :: "string \<Rightarrow> int" where
  "int_of_digits ds = foldl (\<lambda>a c. a * 10 + (of_char c - 48)) 0 ds"

text \<open>
  The number after the sign: digits, an optional point and digits (at least one digit
  in all), and an exponent that counts only if it has a digit.  Anything left over
  makes the literal invalid.
\<close>

definition parse_number :: "bool \<Rightarrow> string \<Rightarrow> pyfloat option" where
  "parse_number neg t =
     (let ip = takeWhile is_digit t;
          r1 = dropWhile is_digit t;
          has_point = (r1 \<noteq> [] \<and> hd r1 = CHR ''.'');
          fp = (if has_point then takeWhile is_digit (tl r1) else []);
          r2 = (if has_point then dropWhile is_digit (tl r1) else r1)
      in if ip = [] \<and> fp = [] then None
         else if r2 = [] then
           Some (round_binary64 neg (int_of_digits (ip @ fp)) (10 ^ length fp))
         else if hd r2 = CHR ''e'' \<or> hd r2 = CHR ''E'' then
           (let (eneg, r3) = take_sign (tl r2)
            in if r3 = [] \<or> \<not> list_all is_digit r3 then None
               else
                 let x = (if eneg then - int_of_digits r3 else int_of_digits r3)
                         - int (length fp)
                 in Some (if 0 \<le> x
                          then round_binary64 neg (int_of_digits (ip @ fp) * 10 ^ nat x) 1
                          else round_binary64 neg (int_of_digits (ip @ fp)) (10 ^ nat (- x))))
         else None)"

definition py_float :: "string \<Rightarrow> error + pyfloat" where
  "py_float s =
     (if CHR ''_'' \<in> set s \<and> \<not> underscores_ok (CHR 0x00) s then Inl (ValueError s)
      else
        let (neg, t) = take_sign (py_strip (filter (\<lambda>c. c \<noteq> CHR ''_'') s));
            l = map py_tolower t
        in if l = ''inf'' \<or> l = ''infinity'' then Inr (Infinity neg)
           else if l = ''nan'' then Inr NaN
           else (case parse_number neg t of
                   None \<Rightarrow> Inl (ValueError s)
                 | Some f \<Rightarrow> Inr f))"

text \<open>\<^verbatim>\<open>int(x)\<close> truncates towards zero; it raises on a NaN and on an infinity.\<close>

definition int_of_float :: "pyfloat \<Rightarrow> error + int" where
  "int_of_float f =
     (case f of
        NaN \<Rightarrow> Inl (ValueError ''cannot convert float NaN to integer'')
      | Infinity _ \<Rightarrow> Inl OverflowError
      | Finite neg m p \<Rightarrow>
          (let a = (if 0 \<le> p then m * 2 ^ nat p else m div 2 ^ nat (- p))
           in Inr (if neg then - a else a)))"

section \<open>\<^verbatim>\<open>__id_to_int\<close>\<close>

text \<open>
  \<^verbatim>\<open>try: out = int(float(id_string))\<close>, and on a \<^verbatim>\<open>TypeError\<close> or a
  \<^verbatim>\<open>ValueError\<close> \<^verbatim>\<open>out = int(id_string, 16)\<close>.  Any other exception of the first
  attempt, and every exception of the second, leaves the function.
\<close>

definition caught :: "error \<Rightarrow> bool" where
  "caught e = (case e of ValueError _ \<Rightarrow> True | TypeError \<Rightarrow> True | _ \<Rightarrow> False)"

definition id_to_int :: "string \<Rightarrow> error + int" where
  "id_to_int id_string =
     (case (case py_float id_string of Inl e \<Rightarrow> Inl e | Inr f \<Rightarrow> int_of_float f) of
        Inr out \<Rightarrow> Inr out
      | Inl e \<Rightarrow> if caught e then py_int 16 id_string else Inl e)"

section \<open>The component definition and the ID range analyzer\<close>

text \<open>
  What \<^verbatim>\<open>__compute_component_base_id_range\<close> reads of an
  \<^verbatim>\<open>XmlComponentParser\<close> object: the component's name, and for every event,
  channel, command and parameter the first entry of its id list, as the text the XML
  gave.  \<open>events\<close> holds \<^verbatim>\<open>event.get_ids()[0]\<close> of each event in order,
  \<open>channels\<close> and \<open>commands\<close> likewise (\<^verbatim>\<open>get_opcodes()[0]\<close> for a command),
  and \<open>parameters\<close> holds for each parameter its id, its set opcode and its save
  opcode.
\<close>

record comp_xml =
  comp_name :: string
  events :: "string list"
  channels :: "string list"
  commands :: "string list"
  parameters :: "(string \<times> string \<times> string) list"

text \<open>\<^verbatim>\<open>if highest_ID is None or id > highest_ID: highest_ID = id\<close>\<close>

definition raise_highest :: "int option \<Rightarrow> int \<Rightarrow> int option" where
  "raise_highest highest_ID i =
     (case highest_ID of
        None \<Rightarrow> Some i
      | Some h \<Rightarrow> if i > h then Some i else Some h)"

text \<open>
  The loops over the events, the channels and the commands are the same loop: parse
  the id, leave with a collision if it is in the list already, append it, raise the
  highest id.
\<close>

fun check_ids ::
  "id_kind \<Rightarrow> string \<Rightarrow> string list \<Rightarrow> int list \<Rightarrow> int option \<Rightarrow> error + (int list \<times> int option)"
where
  "check_ids kind cname [] id_list highest_ID = Inr (id_list, highest_ID)"
| "check_ids kind cname (s # rest) id_list highest_ID =
     (case id_to_int s of
        Inl e \<Rightarrow> Inl e
      | Inr i \<Rightarrow>
          if i \<in> set id_list then Inl (IDCollisionError kind i cname)
          else check_ids kind cname rest (id_list @ [i]) (raise_highest highest_ID i))"

text \<open>One opcode of a parameter, checked against the parameter opcodes and the commands.\<close>

definition check_opcode ::
  "id_kind \<Rightarrow> string \<Rightarrow> int list \<Rightarrow> string \<Rightarrow> int list \<Rightarrow> int option \<Rightarrow>
   error + (int list \<times> int option)"
where
  "check_opcode kind cname command_id_list s parameter_opcode_list highest_ID =
     (case id_to_int s of
        Inl e \<Rightarrow> Inl e
      | Inr i \<Rightarrow>
          if i \<in> set parameter_opcode_list then Inl (IDCollisionError kind i cname)
          else if i \<in> set command_id_list then Inl (IDCollisionWithCommand kind i cname)
          else Inr (parameter_opcode_list @ [i], raise_highest highest_ID i))"

fun check_parameters ::
  "string \<Rightarrow> int list \<Rightarrow> (string \<times> string \<times> string) list \<Rightarrow> int list \<Rightarrow> int list \<Rightarrow>
   int option \<Rightarrow> error + int option"
where
  "check_parameters cname command_id_list [] parameter_id_list parameter_opcode_list highest_ID =
     Inr highest_ID"
| "check_parameters cname command_id_list ((pid, pset, psave) # rest)
     parameter_id_list parameter_opcode_list highest_ID =
     (case id_to_int pid of
        Inl e \<Rightarrow> Inl e
      | Inr i \<Rightarrow>
          if i \<in> set parameter_id_list then Inl (IDCollisionError ParameterID i cname)
          else
            (case check_opcode ParameterSetOpcode cname command_id_list pset
                    parameter_opcode_list (raise_highest highest_ID i) of
               Inl e \<Rightarrow> Inl e
             | Inr (ops1, h1) \<Rightarrow>
                 (case check_opcode ParameterSaveOpcode cname command_id_list psave ops1 h1 of
                    Inl e \<Rightarrow> Inl e
                  | Inr (ops2, h2) \<Rightarrow>
                      check_parameters cname command_id_list rest
                        (parameter_id_list @ [i]) ops2 h2)))"

definition compute_component_base_id_range :: "comp_xml option \<Rightarrow> error + int option" where
  "compute_component_base_id_range cx =
     (case cx of
        None \<Rightarrow> Inr None
      | Some c \<Rightarrow>
          (case check_ids EventID (comp_name c) (events c) [] None of
             Inl e \<Rightarrow> Inl e
           | Inr (event_id_list, h1) \<Rightarrow>
               (case check_ids ChannelID (comp_name c) (channels c) [] h1 of
                  Inl e \<Rightarrow> Inl e
                | Inr (channel_id_list, h2) \<Rightarrow>
                    (case check_ids CommandID (comp_name c) (commands c) [] h2 of
                       Inl e \<Rightarrow> Inl e
                     | Inr (command_id_list, h3) \<Rightarrow>
                         (case check_parameters (comp_name c) command_id_list
                                 (parameters c) [] [] h3 of
                            Inl e \<Rightarrow> Inl e
                          | Inr highest_ID \<Rightarrow> Inr (map_option (\<lambda>h. h + 1) highest_ID))))))"

definition compute_component_ID_amount :: "comp_xml option \<Rightarrow> nat option" where
  "compute_component_ID_amount cx =
     map_option
       (\<lambda>c. max (max (max (length (events c))
                           (length (channels c) + 2 * length (parameters c)))
                      (length (commands c)))
                 (length (parameters c)))
       cx"

section \<open>Instances and the instance resolver\<close>

text \<open>
  An instance of the topology: its name and type, the \<^verbatim>\<open>base_id\<close> and
  \<^verbatim>\<open>base_id_window\<close> attributes as text (or \<^verbatim>\<open>None\<close>), and the component
  object that \<^verbatim>\<open>create\<close> attaches when the type is known.
\<close>

record inst =
  inst_name :: string
  inst_type :: string
  base_id :: "string option"
  base_id_window :: "string option"
  component_object :: "comp_xml option"

text \<open>
  The list \<^verbatim>\<open>[n, b, w, inst, component_calculated_window_range, amount]\<close> that
  \<^verbatim>\<open>__set_base_id_list\<close> returns.
\<close>

record cand =
  c_name :: string
  c_base :: "int option"
  c_window :: int
  c_inst :: inst
  c_range :: "int option"
  c_amount :: "nat option"

text \<open>The lines the resolver and \<^verbatim>\<open>create\<close> send to the logger.\<close>

datatype msg =
    AddingBaseId string int
  | ResettingBaseId string int
  | WindowFromInstance string int
  | WindowFromTopology string int
  | WindowFromComponent string int
  | WindowTooSmall string int int
  | UnknownComponentType string

definition resolve_base :: "int \<Rightarrow> inst \<Rightarrow> error + (int option \<times> msg list)" where
  "resolve_base id' inst =
     (case base_id inst of
        None \<Rightarrow> Inr (None, [])
      | Some s \<Rightarrow>
          (case py_int 0 s of
             Inl e \<Rightarrow> Inl e
           | Inr v \<Rightarrow>
               if id' > \<bar>v\<bar>
               then Inr (Some (\<bar>v\<bar> + id'),
                         [AddingBaseId (inst_name inst) (\<bar>v\<bar> + id'),
                          ResettingBaseId (inst_name inst) (\<bar>v\<bar> + id')])
               else Inr (Some \<bar>v\<bar>, [ResettingBaseId (inst_name inst) \<bar>v\<bar>])))"

text \<open>
  The parameters \<^verbatim>\<open>id\<close> and \<^verbatim>\<open>size\<close> are written \<open>id'\<close> and \<open>size'\<close>.
  The window: \<^verbatim>\<open>size > component_calculated_window_range\<close> is evaluated when the
  instance has no window of its own, and comparing an \<^verbatim>\<open>int\<close> with \<^verbatim>\<open>None\<close>
  raises \<^verbatim>\<open>TypeError\<close>.
\<close>

definition resolve_window :: "int \<Rightarrow> inst \<Rightarrow> int option \<Rightarrow> error + (int \<times> msg list)" where
  "resolve_window size' inst component_calculated_window_range =
     (case base_id_window inst of
        Some s \<Rightarrow>
          (case py_int 0 s of
             Inl e \<Rightarrow> Inl e
           | Inr v \<Rightarrow> Inr (\<bar>v\<bar>, [WindowFromInstance (inst_name inst) \<bar>v\<bar>]))
      | None \<Rightarrow>
          (case component_calculated_window_range of
             None \<Rightarrow> Inl TypeError
           | Some r \<Rightarrow>
               if size' > r then Inr (size', [WindowFromTopology (inst_name inst) size'])
               else Inr (r, [WindowFromComponent (inst_name inst) r])))"

definition set_base_id_list :: "int \<Rightarrow> int \<Rightarrow> inst \<Rightarrow> error + (cand \<times> msg list)" where
  "set_base_id_list id' size' inst =
     (case resolve_base id' inst of
        Inl e \<Rightarrow> Inl e
      | Inr (b, log1) \<Rightarrow>
          (case compute_component_base_id_range (component_object inst) of
             Inl e \<Rightarrow> Inl e
           | Inr component_calculated_window_range \<Rightarrow>
               (case resolve_window size' inst component_calculated_window_range of
                  Inl e \<Rightarrow> Inl e
                | Inr (w, log2) \<Rightarrow>
                    Inr (\<lparr>c_name = inst_name inst, c_base = b, c_window = w, c_inst = inst,
                          c_range = component_calculated_window_range,
                          c_amount = compute_component_ID_amount (component_object inst)\<rparr>,
                         log1 @ log2 @
                         (case component_calculated_window_range of
                            None \<Rightarrow> []
                          | Some r \<Rightarrow>
                              if w < r then [WindowTooSmall (inst_name inst) w r] else [])))))"

section \<open>The allocation engine: \<^verbatim>\<open>__compute_base_ids\<close>\<close>

subsection \<open>Pass 1: resolving every instance\<close>

text \<open>
  Every instance is resolved in the order of the topology; the result goes to the list
  of candidates with a base id or to the list of those without, by whether the
  instance has a \<^verbatim>\<open>base_id\<close> attribute.  The first exception ends the pass.
\<close>

fun pass1 ::
  "int \<Rightarrow> int \<Rightarrow> inst list \<Rightarrow> cand list \<Rightarrow> cand list \<Rightarrow> error + (cand list \<times> cand list)"
where
  "pass1 id' window [] initial_comp_with_ID initial_comp_without_ID =
     Inr (initial_comp_with_ID, initial_comp_without_ID)"
| "pass1 id' window (inst # rest) initial_comp_with_ID initial_comp_without_ID =
     (case set_base_id_list id' window inst of
        Inl e \<Rightarrow> Inl e
      | Inr (t, log) \<Rightarrow>
          if base_id inst = None
          then pass1 id' window rest initial_comp_with_ID (initial_comp_without_ID @ [t])
          else pass1 id' window rest (initial_comp_with_ID @ [t]) initial_comp_without_ID)"

subsection \<open>Pass 3: the check of the explicit base ids\<close>

text \<open>
  \<^verbatim>\<open>if t[1] < prev_id + prev_window: raise Exception(err)\<close> over the candidates with
  a base id, sorted by base id, starting from \<^verbatim>\<open>prev_id = 0\<close>,
  \<^verbatim>\<open>prev_window = 0\<close> and \<^verbatim>\<open>prev_name = "NONE"\<close>.
\<close>

fun pass3 :: "int \<Rightarrow> int \<Rightarrow> string \<Rightarrow> cand list \<Rightarrow> error + unit" where
  "pass3 prev_id prev_window prev_name [] = Inr ()"
| "pass3 prev_id prev_window prev_name (t # ts) =
     (case c_base t of
        None \<Rightarrow> Inl TypeError
      | Some b \<Rightarrow>
          if b < prev_id + prev_window
          then Inl (BaseIdCollision (c_name t) b prev_name prev_id prev_window)
          else pass3 b (c_window t) (c_name t) ts)"

subsection \<open>Pass 4: the merge loop\<close>

text \<open>
  The state of the \<^verbatim>\<open>while\<close> loop.  \<open>prev_id\<close> is \<^verbatim>\<open>out_base_ids_list[-1][1]\<close>
  after an assignment, so it has the type of a candidate's base id.
\<close>

record merge_state =
  initial_comp_with_ID :: "cand list"
  initial_comp_without_ID :: "cand list"
  with_ID_obj :: "cand option"
  without_ID_obj :: "cand option"
  prev_id :: "int option"
  prev_window :: int
  out_base_ids_list :: "cand list"

definition merge_done :: "merge_state \<Rightarrow> bool" where
  "merge_done s =
     (initial_comp_with_ID s = [] \<and> initial_comp_without_ID s = [] \<and>
      with_ID_obj s = None \<and> without_ID_obj s = None)"

text \<open>The two \<^verbatim>\<open>pop(0)\<close> at the head of the loop body.\<close>

definition fetch :: "merge_state \<Rightarrow> merge_state" where
  "fetch s =
     (let s1 = (case initial_comp_with_ID s of
                  t # ts \<Rightarrow>
                    if with_ID_obj s = None
                    then s\<lparr>initial_comp_with_ID := ts, with_ID_obj := Some t\<rparr> else s
                | [] \<Rightarrow> s)
      in (case initial_comp_without_ID s1 of
            t # ts \<Rightarrow>
              if without_ID_obj s1 = None
              then s1\<lparr>initial_comp_without_ID := ts, without_ID_obj := Some t\<rparr> else s1
          | [] \<Rightarrow> s1))"

text \<open>Appending an entry, and the two assignments at the foot of the loop body.\<close>

definition assign :: "cand \<Rightarrow> merge_state \<Rightarrow> merge_state" where
  "assign t s =
     s\<lparr>out_base_ids_list := out_base_ids_list s @ [t],
       prev_id := c_base t, prev_window := c_window t\<rparr>"

definition merge_step :: "merge_state \<Rightarrow> error + merge_state" where
  "merge_step s0 =
     (let s = fetch s0
      in case prev_id s of
           None \<Rightarrow> Inl TypeError
         | Some p \<Rightarrow>
             (let next_poss_id = p + prev_window s
              in case (with_ID_obj s, without_ID_obj s) of
                   (None, Some wo) \<Rightarrow>
                     Inr (assign (wo\<lparr>c_base := Some next_poss_id\<rparr>)
                         (s\<lparr>without_ID_obj := None\<rparr>))
                 | (Some w, None) \<Rightarrow>
                     Inr (assign w (s\<lparr>with_ID_obj := None\<rparr>))
                 | (Some w, Some wo) \<Rightarrow>
                     (case c_base w of
                        None \<Rightarrow> Inl TypeError
                      | Some wb \<Rightarrow>
                          if next_poss_id + c_window wo \<le> wb
                          then Inr (assign (wo\<lparr>c_base := Some next_poss_id\<rparr>)
                                      (s\<lparr>without_ID_obj := None\<rparr>))
                          else Inr (assign w (s\<lparr>with_ID_obj := None\<rparr>)))
                 | (None, None) \<Rightarrow> Inl TypeError))"

definition pending :: "merge_state \<Rightarrow> nat" where
  "pending s =
     length (initial_comp_with_ID s) + length (initial_comp_without_ID s) +
     (if with_ID_obj s = None then 0 else 1) + (if without_ID_obj s = None then 0 else 1)"

function merge_loop :: "merge_state \<Rightarrow> error + cand list" where
  "merge_loop s =
     (if merge_done s then Inr (out_base_ids_list s)
      else (case merge_step s of
              Inl e \<Rightarrow> Inl e
            | Inr s' \<Rightarrow> merge_loop s'))"
  by pat_completeness auto

termination merge_loop
proof (relation "measure pending")
  show "wf (measure pending)" by simp
next
  fix s s'
  assume "\<not> merge_done s" and st: "merge_step s = Inr s'"
  have same: "pending (fetch s) = pending s"
    by (auto simp: pending_def fetch_def Let_def split: list.splits)
  have "pending s' < pending (fetch s)"
    using st
    by (auto simp: merge_step_def Let_def assign_def pending_def
             split: option.splits if_splits)
  with same show "(s', s) \<in> measure pending" by simp
qed

declare merge_loop.simps [simp del]

subsection \<open>The whole function\<close>

text \<open>
  \<open>assembly_base_id\<close> and \<open>assembly_window\<close> are the two integers after
  \<^verbatim>\<open>int(...)\<close>, the defaults of the configuration filled in.  Pass 5 formats the
  table for the logger and the log file and leaves \<^verbatim>\<open>out_base_ids_list\<close> as it is.
  The keys of the two sorts are \<^verbatim>\<open>x[1]\<close> and \<^verbatim>\<open>x[2]\<close>; Python's sort is stable,
  as \<open>sort_key\<close> is.  Every candidate of the first list has a base id, so
  the order on \<open>int option\<close> is the order of the integers there.  Passes 2 to 4,
  which work on the candidates alone, are \<open>allocate\<close>.
\<close>

definition allocate :: "int \<Rightarrow> cand list \<Rightarrow> cand list \<Rightarrow> error + cand list" where
  "allocate id' with_ID without_ID =
     (let with_sorted = sort_key c_base with_ID;
          without_sorted = sort_key c_window without_ID
      in case pass3 0 0 ''NONE'' with_sorted of
           Inl e \<Rightarrow> Inl e
         | Inr _ \<Rightarrow>
             merge_loop
               \<lparr>initial_comp_with_ID = with_sorted,
                initial_comp_without_ID = without_sorted,
                with_ID_obj = None, without_ID_obj = None,
                prev_id = Some id', prev_window = 0,
                out_base_ids_list = []\<rparr>)"

definition compute_base_ids :: "int \<Rightarrow> int \<Rightarrow> inst list \<Rightarrow> error + cand list" where
  "compute_base_ids assembly_base_id assembly_window instances =
     (let id' = (if assembly_base_id \<le> 0 then 1 else assembly_base_id);
          window = assembly_window
      in case pass1 id' window instances [] [] of
           Inl e \<Rightarrow> Inl e
         | Inr (with_ID, without_ID) \<Rightarrow> allocate id' with_ID without_ID)"

section \<open>\<^verbatim>\<open>create\<close>: attaching the component objects\<close>

text \<open>
  The loop of \<^verbatim>\<open>create\<close> over the instances: an instance whose type is a key of
  \<^verbatim>\<open>componentXMLNameToComponent\<close> gets that component object; for any other the
  logger is told and the instance keeps the component object it was built with,
  \<^verbatim>\<open>None\<close>.  Then the base ids are computed, unless that has been turned off.
\<close>

fun set_component_objects :: "(string \<rightharpoonup> comp_xml) \<Rightarrow> inst list \<Rightarrow> inst list \<times> msg list" where
  "set_component_objects d [] = ([], [])"
| "set_component_objects d (i # rest) =
     (let (is', log) = set_component_objects d rest
      in case d (inst_type i) of
           None \<Rightarrow> (i # is', UnknownComponentType (inst_type i) # log)
         | Some c \<Rightarrow> (i\<lparr>component_object := Some c\<rparr> # is', log))"

definition create_base_ids ::
  "(string \<rightharpoonup> comp_xml) \<Rightarrow> bool \<Rightarrow> int \<Rightarrow> int \<Rightarrow> inst list \<Rightarrow> error + cand list"
where
  "create_base_ids d generate_new_IDS assembly_base_id assembly_window instances =
     (if generate_new_IDS
      then compute_base_ids assembly_base_id assembly_window
             (fst (set_component_objects d instances))
      else Inr [])"

section \<open>Notions the properties are stated with\<close>






text \<open>
  The merge of pass 4 as a function of the cursor and of the candidates still to be
  assigned, those with a base id and those without; \<open>place\<close> is the special case
  of no candidate with a base id, windows laid back to back from the cursor on.
  \<open>pend_with\<close> and \<open>pend_without\<close> are the candidates a loop state still has
  to assign: the one taken from its list already, then the list.
\<close>

definition base_of :: "cand \<Rightarrow> int" where
  "base_of t = (case c_base t of None \<Rightarrow> 0 | Some b \<Rightarrow> b)"

fun place :: "int \<Rightarrow> cand list \<Rightarrow> cand list" where
  "place cursor [] = []"
| "place cursor (f # fs) = f\<lparr>c_base := Some cursor\<rparr> # place (cursor + c_window f) fs"

fun merge2 :: "int \<Rightarrow> cand list \<Rightarrow> cand list \<Rightarrow> cand list" where
  "merge2 cursor [] fs = place cursor fs"
| "merge2 cursor (x # xs) [] = x # merge2 (base_of x + c_window x) xs []"
| "merge2 cursor (x # xs) (f # fs) =
     (if cursor + c_window f \<le> base_of x
      then f\<lparr>c_base := Some cursor\<rparr> # merge2 (cursor + c_window f) (x # xs) fs
      else x # merge2 (base_of x + c_window x) xs (f # fs))"

definition pend_with :: "merge_state \<Rightarrow> cand list" where
  "pend_with s =
     (case with_ID_obj s of None \<Rightarrow> [] | Some w \<Rightarrow> [w]) @ initial_comp_with_ID s"

definition pend_without :: "merge_state \<Rightarrow> cand list" where
  "pend_without s =
     (case without_ID_obj s of None \<Rightarrow> [] | Some w \<Rightarrow> [w]) @ initial_comp_without_ID s"

text \<open>
  \<open>chain lo ts\<close>: every candidate of \<open>ts\<close> has a base id, the first one at
  \<open>lo\<close> or above, and each next one at or above the end of the window before it.
  \<open>resolves id' w i t\<close>: the resolver returns the candidate \<open>t\<close> for the
  instance \<open>i\<close>.
\<close>

fun chain :: "int \<Rightarrow> cand list \<Rightarrow> bool" where
  "chain lo [] = True"
| "chain lo (t # ts) =
     (case c_base t of None \<Rightarrow> False | Some b \<Rightarrow> lo \<le> b \<and> chain (b + c_window t) ts)"

definition resolves :: "int \<Rightarrow> int \<Rightarrow> inst \<Rightarrow> cand \<Rightarrow> bool" where
  "resolves id' w i t = (\<exists>log. set_base_id_list id' w i = Inr (t, log))"

text \<open>
  The final base id of an instance with an explicit base id in the words of the
  specification, from the assembly-wide base id and the parsed value.
\<close>

definition spec_final_base_id :: "int \<Rightarrow> int \<Rightarrow> int" where
  "spec_final_base_id assembly_base_id parsed_value =
     (if assembly_base_id > parsed_value then assembly_base_id + parsed_value
      else parsed_value)"

section \<open>The numeric id parser\<close>

subsection \<open>Every character of an accepted literal is a numeral character\<close>






















subsection \<open>The parser on the literals of the specification\<close>



section \<open>The ID range analyzer\<close>

























section \<open>The instance resolver\<close>

lemma set_base_id_list_parts:
  assumes "set_base_id_list id' size' inst = Inr (t, log)"
  shows "\<exists>b l1 r w l2.
           resolve_base id' inst = Inr (b, l1) \<and>
           compute_component_base_id_range (component_object inst) = Inr r \<and>
           resolve_window size' inst r = Inr (w, l2) \<and>
           t = \<lparr>c_name = inst_name inst, c_base = b, c_window = w, c_inst = inst, c_range = r,
                c_amount = compute_component_ID_amount (component_object inst)\<rparr> \<and>
           log = l1 @ l2 @ (case r of None \<Rightarrow> []
                            | Some r' \<Rightarrow> if w < r' then [WindowTooSmall (inst_name inst) w r'] else [])"
  using assms unfolding set_base_id_list_def by (auto split: sum.splits)





section \<open>The merge loop and the passes around it\<close>

subsection \<open>The loop computes the merge\<close>

lemma fetch_fields:
  "prev_id (fetch s) = prev_id s" "prev_window (fetch s) = prev_window s"
  "out_base_ids_list (fetch s) = out_base_ids_list s"
  by (auto simp: fetch_def Let_def split: list.splits)

lemma fetch_with:
  "with_ID_obj (fetch s) = (case pend_with s of [] \<Rightarrow> None | x # _ \<Rightarrow> Some x)"
  "initial_comp_with_ID (fetch s) = tl (pend_with s)"
  by (auto simp: fetch_def Let_def pend_with_def split: list.splits option.splits)

lemma fetch_without:
  "without_ID_obj (fetch s) = (case pend_without s of [] \<Rightarrow> None | x # _ \<Rightarrow> Some x)"
  "initial_comp_without_ID (fetch s) = tl (pend_without s)"
  by (auto simp: fetch_def Let_def pend_without_def split: list.splits option.splits)

lemma merge_done_pend: "merge_done s \<longleftrightarrow> pend_with s = [] \<and> pend_without s = []"
  by (auto simp: merge_done_def pend_with_def pend_without_def split: option.splits)

lemma base_of_Some: "c_base x = Some b \<Longrightarrow> base_of x = b"
  by (simp add: base_of_def)

text \<open>One turn of the loop assigns the head of the merge.\<close>

lemma merge_step_merge2:
  assumes nd: "\<not> merge_done s" and p: "prev_id s = Some p"
    and wb: "\<forall>x\<in>set (pend_with s). c_base x \<noteq> None"
  shows "\<exists>s' y p'. merge_step s = Inr s' \<and>
           out_base_ids_list s' = out_base_ids_list s @ [y] \<and>
           prev_id s' = Some p' \<and>
           set (pend_with s') \<subseteq> set (pend_with s) \<and>
           merge2 (p + prev_window s) (pend_with s) (pend_without s) =
             y # merge2 (p' + prev_window s') (pend_with s') (pend_without s')"
proof (cases "pend_with s")
  case Nil
  with nd obtain f fs where F: "pend_without s = f # fs"
    by (cases "pend_without s") (auto simp: merge_done_pend)
  let ?y = "f\<lparr>c_base := Some (p + prev_window s)\<rparr>"
  let ?s' = "assign ?y ((fetch s)\<lparr>without_ID_obj := None\<rparr>)"
  have st: "merge_step s = Inr ?s'"
    unfolding merge_step_def Let_def
    by (simp add: fetch_fields fetch_with fetch_without p Nil F)
  have pw: "pend_with ?s' = []" "pend_without ?s' = fs"
      by ((subst pend_with_def pend_without_def),
          simp add: assign_def fetch_with fetch_without Nil F)+
  have "out_base_ids_list ?s' = out_base_ids_list s @ [?y]"
    "prev_id ?s' = Some (p + prev_window s)" "prev_window ?s' = c_window f"
    by (simp_all add: assign_def fetch_fields)
  with st pw Nil F show ?thesis by simp
next
  case (Cons x xs)
  with wb obtain bx where bx: "c_base x = Some bx" by auto
  then have bo: "base_of x = bx" by (rule base_of_Some)
  show ?thesis
  proof (cases "pend_without s")
    case Nil
    let ?s' = "assign x ((fetch s)\<lparr>with_ID_obj := None\<rparr>)"
    have st: "merge_step s = Inr ?s'"
      unfolding merge_step_def Let_def
      by (simp add: fetch_fields fetch_with fetch_without p Nil Cons)
    have pw: "pend_with ?s' = xs" "pend_without ?s' = []"
      by ((subst pend_with_def pend_without_def),
          simp add: assign_def fetch_with fetch_without Nil Cons)+
    have "out_base_ids_list ?s' = out_base_ids_list s @ [x]"
      "prev_id ?s' = Some bx" "prev_window ?s' = c_window x"
      by (simp_all add: assign_def fetch_fields bx)
    with st pw Nil Cons bo show ?thesis by auto
  next
    case F: (Cons f fs)
    show ?thesis
    proof (cases "p + prev_window s + c_window f \<le> bx")
      case True
      let ?y = "f\<lparr>c_base := Some (p + prev_window s)\<rparr>"
      let ?s' = "assign ?y ((fetch s)\<lparr>without_ID_obj := None\<rparr>)"
      have st: "merge_step s = Inr ?s'"
        unfolding merge_step_def Let_def
        by (simp add: fetch_fields fetch_with fetch_without p F Cons bx True)
      have pw: "pend_with ?s' = x # xs" "pend_without ?s' = fs"
      by ((subst pend_with_def pend_without_def),
          simp add: assign_def fetch_with fetch_without F Cons)+
      have "out_base_ids_list ?s' = out_base_ids_list s @ [?y]"
        "prev_id ?s' = Some (p + prev_window s)" "prev_window ?s' = c_window f"
        by (simp_all add: assign_def fetch_fields)
      with st pw F Cons bo True show ?thesis by auto
    next
      case False
      let ?s' = "assign x ((fetch s)\<lparr>with_ID_obj := None\<rparr>)"
      have st: "merge_step s = Inr ?s'"
        unfolding merge_step_def Let_def
        by (simp add: fetch_fields fetch_with fetch_without p F Cons bx False)
      have pw: "pend_with ?s' = xs" "pend_without ?s' = f # fs"
      by ((subst pend_with_def pend_without_def),
          simp add: assign_def fetch_with fetch_without F Cons)+
      have "out_base_ids_list ?s' = out_base_ids_list s @ [x]"
        "prev_id ?s' = Some bx" "prev_window ?s' = c_window x"
        by (simp_all add: assign_def fetch_fields bx)
      with st pw F Cons bo False show ?thesis by auto
    qed
  qed
qed

lemma merge_loop_merge2:
  "prev_id s = Some p \<Longrightarrow> \<forall>x\<in>set (pend_with s). c_base x \<noteq> None \<Longrightarrow>
   merge_loop s =
     Inr (out_base_ids_list s @ merge2 (p + prev_window s) (pend_with s) (pend_without s))"
proof (induction s arbitrary: p rule: merge_loop.induct)
  case (1 s)
  show ?case
  proof (cases "merge_done s")
    case True
    then show ?thesis
      by (subst merge_loop.simps) (simp add: merge_done_pend)
  next
    case False
    from merge_step_merge2[OF False "1.prems"] obtain s' y p' where
      st: "merge_step s = Inr s'" and
      o: "out_base_ids_list s' = out_base_ids_list s @ [y]" and
      p': "prev_id s' = Some p'" and
      sub: "set (pend_with s') \<subseteq> set (pend_with s)" and
      m: "merge2 (p + prev_window s) (pend_with s) (pend_without s) =
             y # merge2 (p' + prev_window s') (pend_with s') (pend_without s')"
      by blast
    from sub "1.prems"(2) have wb: "\<forall>x\<in>set (pend_with s'). c_base x \<noteq> None" by blast
    from "1.IH"[OF False st p' wb] have
      "merge_loop s' = Inr (out_base_ids_list s' @
          merge2 (p' + prev_window s') (pend_with s') (pend_without s'))" .
    with False st o m show ?thesis
      by (subst merge_loop.simps) simp
  qed
qed


subsection \<open>Pass 3 accepts exactly the chains\<close>

lemma pass3_chain: "pass3 pid pw pn ts = Inr u \<longleftrightarrow> chain (pid + pw) ts"
proof (induction ts arbitrary: pid pw pn)
  case Nil then show ?case by simp
next
  case (Cons t ts)
  show ?case
  proof (cases "c_base t")
    case None then show ?thesis by simp
  next
    case (Some b)
    with Cons[of b "c_window t" "c_name t"] show ?thesis by auto
  qed
qed

lemma chain_mono: "chain lo ts \<Longrightarrow> lo' \<le> lo \<Longrightarrow> chain lo' ts"
  by (cases ts) (auto split: option.splits)

lemma chain_bases: "chain lo ts \<Longrightarrow> x \<in> set ts \<Longrightarrow> c_base x \<noteq> None"
  by (induction ts arbitrary: lo) (auto split: option.splits)

lemma chain_place: "chain cursor (place cursor fs)"
  by (induction fs arbitrary: cursor) auto

lemma chain_merge2:
  "chain L xs \<Longrightarrow> lo \<le> cursor \<Longrightarrow> lo \<le> L \<Longrightarrow> chain lo (merge2 cursor xs fs)"
proof (induction cursor xs fs arbitrary: L lo rule: merge2.induct)
  case (1 cursor fs)
  from chain_mono[OF chain_place "1.prems"(2)] show ?case by simp
next
  case (2 cursor x xs)
  from "2.prems"(1) obtain b where b: "c_base x = Some b" "L \<le> b" "chain (b + c_window x) xs"
    by (auto split: option.splits)
  have bo: "base_of x = b" using b(1) by (rule base_of_Some)
  from "2.IH"[OF b(3), where lo = "b + c_window x"] bo
  have "chain (b + c_window x) (merge2 (b + c_window x) xs [])" by simp
  with b bo "2.prems" show ?case by simp
next
  case (3 cursor x xs f fs)
  from "3.prems"(1) obtain b where b: "c_base x = Some b" "L \<le> b" "chain (b + c_window x) xs"
    by (auto split: option.splits)
  have bo: "base_of x = b" using b(1) by (rule base_of_Some)
  show ?case
  proof (cases "cursor + c_window f \<le> base_of x")
    case True
    with b bo have "chain (cursor + c_window f) (x # xs)" by simp
    from "3.IH"(1)[OF True this, where lo = "cursor + c_window f"]
    have "chain (cursor + c_window f) (merge2 (cursor + c_window f) (x # xs) fs)" by simp
    with True "3.prems"(2) show ?thesis by simp
  next
    case False
    from "3.IH"(2)[OF False, where L = "b + c_window x" and lo = "b + c_window x"] b(3) bo
    have "chain (b + c_window x) (merge2 (b + c_window x) xs (f # fs))" by simp
    with False b bo "3.prems" show ?thesis by simp
  qed
qed

lemma chain_lower:
  "chain lo ts \<Longrightarrow> \<forall>t\<in>set ts. 0 \<le> c_window t \<Longrightarrow> x \<in> set ts \<Longrightarrow> lo \<le> base_of x"
proof (induction ts arbitrary: lo)
  case Nil then show ?case by simp
next
  case (Cons t ts)
  from Cons.prems(1) obtain b where b: "c_base t = Some b" "lo \<le> b" "chain (b + c_window t) ts"
    by (auto split: option.splits)
  show ?case
  proof (cases "x = t")
    case True with b show ?thesis by (simp add: base_of_Some)
  next
    case False
    with Cons.prems(3) have "x \<in> set ts" by simp
    from Cons.IH[OF b(3) _ this] Cons.prems(2) have "b + c_window t \<le> base_of x" by simp
    moreover from Cons.prems(2) have "0 \<le> c_window t" by simp
    ultimately show ?thesis using b(2) by linarith
  qed
qed

lemma chain_pairs:
  "chain lo ts \<Longrightarrow> \<forall>t\<in>set ts. 0 \<le> c_window t \<Longrightarrow> i < j \<Longrightarrow> j < length ts \<Longrightarrow>
   base_of (ts ! i) + c_window (ts ! i) \<le> base_of (ts ! j)"
proof (induction ts arbitrary: lo i j)
  case Nil then show ?case by simp
next
  case (Cons t ts)
  from Cons.prems(1) obtain b where b: "c_base t = Some b" "lo \<le> b" "chain (b + c_window t) ts"
    by (auto split: option.splits)
  from Cons.prems(2) have w: "\<forall>t\<in>set ts. 0 \<le> c_window t" by simp
  from Cons.prems(3) obtain j' where j: "j = Suc j'" by (cases j) auto
  with Cons.prems(4) have j': "j' < length ts" by simp
  show ?case
  proof (cases i)
    case 0
    from chain_lower[OF b(3) w nth_mem[OF j']] have "b + c_window t \<le> base_of (ts ! j')" .
    with 0 j b(1) show ?thesis by (simp add: base_of_Some)
  next
    case (Suc i')
    with Cons.prems(3) j have "i' < j'" by simp
    from Cons.IH[OF b(3) w this j'] Suc j show ?thesis by simp
  qed
qed

subsection \<open>What the merge keeps\<close>

lemma place_windows: "map c_window (place cursor fs) = map c_window fs"
  by (induction fs arbitrary: cursor) auto

lemma place_length: "length (place cursor fs) = length fs"
  by (induction fs arbitrary: cursor) auto

lemma merge2_windows:
  "y \<in> set (merge2 cursor xs fs) \<Longrightarrow> c_window y \<in> c_window ` (set xs \<union> set fs)"
proof (induction cursor xs fs rule: merge2.induct)
  case (1 cursor fs)
  then have "c_window y \<in> set (map c_window (place cursor fs))" by simp
  then show ?case by (simp add: place_windows)
next
  case (2 cursor x xs) then show ?case by auto
next
  case (3 cursor x xs f fs)
  then show ?case by (auto split: if_splits)
qed

lemma merge2_keeps_fixed: "x \<in> set xs \<Longrightarrow> x \<in> set (merge2 cursor xs fs)"
  by (induction cursor xs fs rule: merge2.induct) auto

subsection \<open>Passes 2 to 4 as one merge\<close>

lemma allocate_merge2:
  assumes "pass3 0 0 ''NONE'' (sort_key c_base W) = Inr u"
  shows "allocate id' W F = Inr (merge2 id' (sort_key c_base W) (sort_key c_window F))"
proof -
  let ?s = "\<lparr>initial_comp_with_ID = sort_key c_base W,
             initial_comp_without_ID = sort_key c_window F,
             with_ID_obj = None, without_ID_obj = None,
             prev_id = Some id', prev_window = 0, out_base_ids_list = []\<rparr>"
  from assms have "chain 0 (sort_key c_base W)" using pass3_chain[of 0 0 "''NONE''"] by simp
  then have "\<forall>x\<in>set (sort_key c_base W). c_base x \<noteq> None" using chain_bases by blast
  then have wb: "\<forall>x\<in>set (pend_with ?s). c_base x \<noteq> None" by (simp add: pend_with_def)
  have "merge_loop ?s = Inr (out_base_ids_list ?s @
          merge2 (id' + prev_window ?s) (pend_with ?s) (pend_without ?s))"
    by (rule merge_loop_merge2[OF _ wb]) simp
  then have "merge_loop ?s = Inr (merge2 id' (sort_key c_base W) (sort_key c_window F))"
    by (simp add: pend_with_def pend_without_def)
  with assms show ?thesis by (simp add: allocate_def)
qed

lemma allocate_ok:
  assumes "allocate id' W F = Inr out"
  shows "chain 0 (sort_key c_base W) \<and>
         out = merge2 id' (sort_key c_base W) (sort_key c_window F)"
proof (cases "pass3 0 0 ''NONE'' (sort_key c_base W)")
  case (Inl e)
  with assms show ?thesis by (simp add: allocate_def)
next
  case (Inr u)
  from allocate_merge2[OF Inr] assms pass3_chain[of 0 0 "''NONE''" "sort_key c_base W" u] Inr
  show ?thesis by simp
qed


subsection \<open>Pass 1 as a list of resolved candidates\<close>

lemma resolves_fields:
  assumes "resolves id' w i t"
  shows "c_inst t = i" "c_name t = inst_name i" "c_base t = None \<longleftrightarrow> base_id i = None"
proof -
  from assms obtain log where r: "set_base_id_list id' w i = Inr (t, log)"
    unfolding resolves_def by blast
  from set_base_id_list_parts[OF r] obtain b l1 where
    rb: "resolve_base id' i = Inr (b, l1)" and t: "c_base t = b" "c_inst t = i"
    "c_name t = inst_name i" by auto
  from t show "c_inst t = i" "c_name t = inst_name i" by simp_all
  from rb t(1) have rb': "resolve_base id' i = Inr (c_base t, l1)" by simp
  show "c_base t = None \<longleftrightarrow> base_id i = None"
  proof (cases "base_id i")
    case None
    with rb' show ?thesis by (simp add: resolve_base_def)
  next
    case (Some s)
    show ?thesis
    proof (cases "py_int 0 s")
      case (Inl e)
      with rb' Some show ?thesis by (simp add: resolve_base_def)
    next
      case (Inr v)
      with rb' Some have "c_base t = Some (\<bar>v\<bar> + id') \<or> c_base t = Some \<bar>v\<bar>"
        by (simp add: resolve_base_def split: if_splits)
      with Some show ?thesis by auto
    qed
  qed
qed

lemma resolves_base:
  assumes "resolves id' w i t" and "base_id i = Some s"
  shows "\<exists>v. py_int 0 s = Inr v \<and> c_base t = Some (if id' > \<bar>v\<bar> then id' + \<bar>v\<bar> else \<bar>v\<bar>)"
proof -
  from assms(1) obtain log where r: "set_base_id_list id' w i = Inr (t, log)"
    unfolding resolves_def by blast
  from set_base_id_list_parts[OF r] obtain b l1 where
    rb: "resolve_base id' i = Inr (b, l1)" and t: "c_base t = b" by auto
  from rb assms(2) obtain v where v: "py_int 0 s = Inr v"
    and b: "b = Some (if id' > \<bar>v\<bar> then \<bar>v\<bar> + id' else \<bar>v\<bar>)"
    unfolding resolve_base_def by (auto split: sum.splits if_splits)
  from b t have "c_base t = Some (if id' > \<bar>v\<bar> then id' + \<bar>v\<bar> else \<bar>v\<bar>)"
    by (simp add: add.commute)
  with v show ?thesis by blast
qed

lemma resolves_base_nonneg:
  assumes "resolves id' w i t" and "c_base t = Some b"
  shows "0 \<le> b"
proof -
  from resolves_fields(3)[OF assms(1)] assms(2) obtain s where s: "base_id i = Some s"
    by (cases "base_id i") auto
  from resolves_base[OF assms(1) s] assms(2) obtain v where
    "b = (if id' > \<bar>v\<bar> then id' + \<bar>v\<bar> else \<bar>v\<bar>)" by auto
  then show ?thesis by (simp split: if_splits)
qed

lemma resolves_window_nonneg:
  assumes "resolves id' w i t" and "0 \<le> w"
  shows "0 \<le> c_window t"
proof -
  from assms(1) obtain log where r: "set_base_id_list id' w i = Inr (t, log)"
    unfolding resolves_def by blast
  from set_base_id_list_parts[OF r] obtain r' w' l2 where
    rw: "resolve_window w i r' = Inr (w', l2)" and t: "c_window t = w'" by auto
  from rw assms(2) have "0 \<le> w'"
    unfolding resolve_window_def by (auto split: option.splits sum.splits if_splits)
  with t show ?thesis by simp
qed

lemma pass1_sound:
  "pass1 id' w insts a b = Inr (W, F) \<Longrightarrow>
   \<exists>ts. list_all2 (resolves id' w) insts ts \<and>
        W = a @ filter (\<lambda>t. base_id (c_inst t) \<noteq> None) ts \<and>
        F = b @ filter (\<lambda>t. base_id (c_inst t) = None) ts"
proof (induction insts arbitrary: a b)
  case Nil then show ?case by simp
next
  case (Cons i insts)
  from Cons.prems obtain t log where r: "set_base_id_list id' w i = Inr (t, log)"
    by (auto split: sum.splits)
  then have res: "resolves id' w i t" unfolding resolves_def by blast
  then have ci: "c_inst t = i" by (rule resolves_fields)
  show ?case
  proof (cases "base_id i = None")
    case True
    with Cons.prems r have "pass1 id' w insts a (b @ [t]) = Inr (W, F)" by simp
    from Cons.IH[OF this] obtain ts where ts: "list_all2 (resolves id' w) insts ts"
      "W = a @ filter (\<lambda>t. base_id (c_inst t) \<noteq> None) ts"
      "F = (b @ [t]) @ filter (\<lambda>t. base_id (c_inst t) = None) ts" by blast
    from ts res ci True have "list_all2 (resolves id' w) (i # insts) (t # ts) \<and>
        W = a @ filter (\<lambda>t. base_id (c_inst t) \<noteq> None) (t # ts) \<and>
        F = b @ filter (\<lambda>t. base_id (c_inst t) = None) (t # ts)" by simp
    then show ?thesis by blast
  next
    case False
    with Cons.prems r have "pass1 id' w insts (a @ [t]) b = Inr (W, F)" by simp
    from Cons.IH[OF this] obtain ts where ts: "list_all2 (resolves id' w) insts ts"
      "W = (a @ [t]) @ filter (\<lambda>t. base_id (c_inst t) \<noteq> None) ts"
      "F = b @ filter (\<lambda>t. base_id (c_inst t) = None) ts" by blast
    from ts res ci False have "list_all2 (resolves id' w) (i # insts) (t # ts) \<and>
        W = a @ filter (\<lambda>t. base_id (c_inst t) \<noteq> None) (t # ts) \<and>
        F = b @ filter (\<lambda>t. base_id (c_inst t) = None) (t # ts)" by simp
    then show ?thesis by blast
  qed
qed

lemma pass1_complete:
  "list_all2 (resolves id' w) insts ts \<Longrightarrow>
   pass1 id' w insts a b =
     Inr (a @ filter (\<lambda>t. base_id (c_inst t) \<noteq> None) ts,
          b @ filter (\<lambda>t. base_id (c_inst t) = None) ts)"
proof (induction insts ts arbitrary: a b rule: list_all2_induct)
  case Nil then show ?case by simp
next
  case (Cons i insts t ts)
  from Cons.hyps(1) obtain log where r: "set_base_id_list id' w i = Inr (t, log)"
    unfolding resolves_def by blast
  from Cons.hyps(1) have ci: "c_inst t = i" by (rule resolves_fields)
  show ?case
  proof (cases "base_id i = None")
    case True
    have "pass1 id' w (i # insts) a b = pass1 id' w insts a (b @ [t])"
      by (simp add: r True)
    also note Cons.IH[of a "b @ [t]"]
    finally show ?thesis by (simp add: ci True)
  next
    case False
    have "pass1 id' w (i # insts) a b = pass1 id' w insts (a @ [t]) b"
      by (simp add: r False)
    also note Cons.IH[of "a @ [t]" b]
    finally show ?thesis by (simp add: ci False)
  qed
qed

lemma list_all2_right:
  "list_all2 P xs ys \<Longrightarrow> y \<in> set ys \<Longrightarrow> \<exists>x\<in>set xs. P x y"
  by (induction rule: list_all2_induct) auto

lemma list_all2_left:
  "list_all2 P xs ys \<Longrightarrow> x \<in> set xs \<Longrightarrow> \<exists>y\<in>set ys. P x y"
  by (induction rule: list_all2_induct) auto

text \<open>What a run of the whole function that returns went through.\<close>

lemma compute_base_ids_ok:
  assumes "compute_base_ids abid awin insts = Inr out"
  shows "\<exists>ts. list_all2 (resolves (max abid 1) awin) insts ts \<and>
           chain 0 (sort_key c_base (filter (\<lambda>t. base_id (c_inst t) \<noteq> None) ts)) \<and>
           out = merge2 (max abid 1)
                   (sort_key c_base (filter (\<lambda>t. base_id (c_inst t) \<noteq> None) ts))
                   (sort_key c_window (filter (\<lambda>t. base_id (c_inst t) = None) ts))"
proof -
  have id: "(if abid \<le> 0 then 1 else abid) = max abid 1" by simp
  from assms obtain W F where p1: "pass1 (max abid 1) awin insts [] [] = Inr (W, F)"
    and al: "allocate (max abid 1) W F = Inr out"
    unfolding compute_base_ids_def Let_def id by (auto split: sum.splits)
  from pass1_sound[OF p1] obtain ts where ts: "list_all2 (resolves (max abid 1) awin) insts ts"
    "W = filter (\<lambda>t. base_id (c_inst t) \<noteq> None) ts"
    "F = filter (\<lambda>t. base_id (c_inst t) = None) ts" by auto
  from allocate_ok[OF al] ts show ?thesis by blast
qed

section \<open>The allocation\<close>

subsection \<open>Assigned windows do not overlap\<close>

text \<open>
  C1 (amended).  In the list a run of the allocation engine returns, every entry has a
  base id, and for every two entries, the earlier one's base id plus its window is at
  most the later one's base id, provided no window is negative; that is so whenever the
  assembly window is not negative.  (A component whose ids are all below \<open>-1\<close>
  under a negative assembly window gets a negative window, and the pairs that are not
  neighbours can then overlap.)
\<close>

theorem windows_do_not_overlap:
  assumes "compute_base_ids abid awin insts = Inr out"
    and "0 \<le> awin \<or> (\<forall>t\<in>set out. 0 \<le> c_window t)"
    and "i < j" and "j < length out"
  shows "\<exists>bi bj. c_base (out ! i) = Some bi \<and> c_base (out ! j) = Some bj \<and>
                 bi + c_window (out ! i) \<le> bj"
proof -
  from compute_base_ids_ok[OF assms(1)] obtain ts where
    ts: "list_all2 (resolves (max abid 1) awin) insts ts" and
    ch: "chain 0 (sort_key c_base (filter (\<lambda>t. base_id (c_inst t) \<noteq> None) ts))" and
    out: "out = merge2 (max abid 1)
                   (sort_key c_base (filter (\<lambda>t. base_id (c_inst t) \<noteq> None) ts))
                   (sort_key c_window (filter (\<lambda>t. base_id (c_inst t) = None) ts))"
    by blast
  have c: "chain 0 out"
    unfolding out by (rule chain_merge2[OF ch]) simp_all
  have w: "\<forall>t\<in>set out. 0 \<le> c_window t"
  proof (cases "0 \<le> awin")
    case False with assms(2) show ?thesis by blast
  next
    case True
    show ?thesis
    proof
      fix y assume "y \<in> set out"
      from merge2_windows[OF this[unfolded out]] obtain x where
        x: "x \<in> set ts" "c_window y = c_window x" by auto
      from list_all2_right[OF ts x(1)] obtain i where "resolves (max abid 1) awin i x" by blast
      from resolves_window_nonneg[OF this True] x(2) show "0 \<le> c_window y" by simp
    qed
  qed
  from assms(3,4) have il: "i < length out" by simp
  from chain_bases[OF c nth_mem[OF il]] obtain bi where bi: "c_base (out ! i) = Some bi" by auto
  from chain_bases[OF c nth_mem[OF assms(4)]] obtain bj where bj: "c_base (out ! j) = Some bj"
    by auto
  from chain_pairs[OF c w assms(3,4)] bi bj have "bi + c_window (out ! i) \<le> bj"
    by (simp add: base_of_Some)
  with bi bj show ?thesis by blast
qed

text \<open>
  An instance without a base id and with a window of 20 before an instance at base id
  50: the first is placed at 1, and 1 + 20 is at most 50.
\<close>

theorem windows_do_not_overlap_witness:
  "map_sum (\<lambda>e. e) (map (\<lambda>t. (c_name t, c_base t, c_window t)))
      (compute_base_ids 0 10 [\<lparr>inst_name = ''A'', inst_type = ''T'', base_id = None,
      base_id_window = Some ''20'', component_object = None\<rparr>, \<lparr>inst_name = ''B'',
      inst_type = ''T'', base_id = Some ''50'', base_id_window = Some ''10'', component_object =
      None\<rparr>]) =
     Inr [(''A'', Some 1, 20), (''B'', Some 50, 10)] \<and>
   (\<exists>bi bj. c_base ([\<lparr>c_name = ''A'', c_base = Some 1, c_window = 20, c_inst =
       \<lparr>inst_name = ''A'', inst_type = ''T'', base_id = None, base_id_window = Some
       ''20'', component_object = None\<rparr>, c_range = None, c_amount = None\<rparr>,
       \<lparr>c_name = ''B'', c_base = Some 50, c_window = 10, c_inst = \<lparr>inst_name =
       ''B'', inst_type = ''T'', base_id = Some ''50'', base_id_window = Some ''10'',
       component_object = None\<rparr>, c_range = None, c_amount = None\<rparr>] ! 0) = Some bi
       \<and> c_base ([\<lparr>c_name = ''A'', c_base = Some 1, c_window = 20, c_inst =
       \<lparr>inst_name = ''A'', inst_type = ''T'', base_id = None, base_id_window = Some
       ''20'', component_object = None\<rparr>, c_range = None, c_amount = None\<rparr>,
       \<lparr>c_name = ''B'', c_base = Some 50, c_window = 10, c_inst = \<lparr>inst_name =
       ''B'', inst_type = ''T'', base_id = Some ''50'', base_id_window = Some ''10'',
       component_object = None\<rparr>, c_range = None, c_amount = None\<rparr>] ! 1) = Some bj
       \<and>
      bi + c_window ([\<lparr>c_name = ''A'', c_base = Some 1, c_window = 20, c_inst =
          \<lparr>inst_name = ''A'', inst_type = ''T'', base_id = None, base_id_window = Some
          ''20'', component_object = None\<rparr>, c_range = None, c_amount = None\<rparr>,
          \<lparr>c_name = ''B'', c_base = Some 50, c_window = 10, c_inst = \<lparr>inst_name =
          ''B'', inst_type = ''T'', base_id = Some ''50'', base_id_window = Some ''10'',
          component_object = None\<rparr>, c_range = None, c_amount = None\<rparr>] ! 0) \<le> bj)"
proof -
  have ev: "compute_base_ids 0 10 [\<lparr>inst_name = ''A'', inst_type = ''T'', base_id = None,
      base_id_window = Some ''20'', component_object = None\<rparr>, \<lparr>inst_name = ''B'',
      inst_type = ''T'', base_id = Some ''50'', base_id_window = Some ''10'', component_object =
      None\<rparr>] = Inr [\<lparr>c_name = ''A'', c_base = Some 1, c_window = 20, c_inst =
      \<lparr>inst_name = ''A'', inst_type = ''T'', base_id = None, base_id_window = Some
      ''20'', component_object = None\<rparr>, c_range = None, c_amount = None\<rparr>,
      \<lparr>c_name = ''B'', c_base = Some 50, c_window = 10, c_inst = \<lparr>inst_name =
      ''B'', inst_type = ''T'', base_id = Some ''50'', base_id_window = Some ''10'',
      component_object = None\<rparr>, c_range = None, c_amount = None\<rparr>]"
    by code_simp
  have h: "(0::int) \<le> 10 \<or> (\<forall>t\<in>set [\<lparr>c_name = ''A'', c_base = Some 1,
      c_window = 20, c_inst = \<lparr>inst_name = ''A'', inst_type = ''T'', base_id = None,
      base_id_window = Some ''20'', component_object = None\<rparr>, c_range = None, c_amount =
      None\<rparr>, \<lparr>c_name = ''B'', c_base = Some 50, c_window = 10, c_inst =
      \<lparr>inst_name = ''B'', inst_type = ''T'', base_id = Some ''50'', base_id_window = Some
      ''10'', component_object = None\<rparr>, c_range = None, c_amount = None\<rparr>]. 0 \<le>
      c_window t)" by simp
  have l: "(0::nat) < 1" "1 < length [\<lparr>c_name = ''A'', c_base = Some 1, c_window = 20,
      c_inst = \<lparr>inst_name = ''A'', inst_type = ''T'', base_id = None, base_id_window =
      Some ''20'', component_object = None\<rparr>, c_range = None, c_amount = None\<rparr>,
      \<lparr>c_name = ''B'', c_base = Some 50, c_window = 10, c_inst = \<lparr>inst_name =
      ''B'', inst_type = ''T'', base_id = Some ''50'', base_id_window = Some ''10'',
      component_object = None\<rparr>, c_range = None, c_amount = None\<rparr>]" by simp_all
  from windows_do_not_overlap[OF ev h l] ev show ?thesis by simp
qed

text \<open>
  Without the condition on the windows the inequality fails.  Under the assembly base
  id 10 and the assembly window -20, two instances of a component whose only event has
  the id -10 get the window -9, a third instance has the window 5: they are placed at
  10, 1 and -8, and the third starts below the end of the first, 10 + (-9).
\<close>

theorem windows_overlap_counterexample:
  "map_sum (\<lambda>e. e) (map (\<lambda>t. (c_name t, c_base t, c_window t)))
      (compute_base_ids 10 (- 20) [\<lparr>inst_name = ''X1'', inst_type = ''T'', base_id =
      None, base_id_window = None, component_object = (Some \<lparr>comp_name = ''Neg'', events
      = [''-10''], channels = [], commands = [], parameters = []\<rparr>)\<rparr>,
      \<lparr>inst_name = ''X2'', inst_type = ''T'', base_id = None, base_id_window = None,
      component_object = (Some \<lparr>comp_name = ''Neg'', events = [''-10''], channels = [],
      commands = [], parameters = []\<rparr>)\<rparr>, \<lparr>inst_name = ''X3'', inst_type =
      ''T'', base_id = None, base_id_window = Some ''5'', component_object = None\<rparr>]) =
     Inr [(''X1'', Some 10, - 9), (''X2'', Some 1, - 9), (''X3'', Some (- 8), 5)] \<and>
   \<not> ((10::int) + (- 9) \<le> - 8)"
proof -
  have "map_sum (\<lambda>e. e) (map (\<lambda>t. (c_name t, c_base t, c_window t)))
      (compute_base_ids 10 (- 20) [\<lparr>inst_name = ''X1'', inst_type = ''T'', base_id =
      None, base_id_window = None, component_object = (Some \<lparr>comp_name = ''Neg'', events
      = [''-10''], channels = [], commands = [], parameters = []\<rparr>)\<rparr>,
      \<lparr>inst_name = ''X2'', inst_type = ''T'', base_id = None, base_id_window = None,
      component_object = (Some \<lparr>comp_name = ''Neg'', events = [''-10''], channels = [],
      commands = [], parameters = []\<rparr>)\<rparr>, \<lparr>inst_name = ''X3'', inst_type =
      ''T'', base_id = None, base_id_window = Some ''5'', component_object = None\<rparr>]) =
     Inr [(''X1'', Some 10, - 9), (''X2'', Some 1, - 9), (''X3'', Some (- 8), 5)]"
    by code_simp
  then show ?thesis by simp
qed

subsection \<open>No explicit base ids\<close>

lemma place_hd: "fs \<noteq> [] \<Longrightarrow> c_base (hd (place cursor fs)) = Some cursor"
  by (cases fs) auto

lemma place_next:
  "Suc k < length fs \<Longrightarrow>
   c_base (place cursor fs ! Suc k) =
     Some (base_of (place cursor fs ! k) + c_window (place cursor fs ! k))"
proof (induction fs arbitrary: cursor k)
  case Nil then show ?case by simp
next
  case (Cons f fs)
  show ?case
  proof (cases k)
    case 0
    with Cons.prems obtain g gs where "fs = g # gs" by (cases fs) auto
    with 0 show ?thesis by (simp add: base_of_def)
  next
    case (Suc k')
    with Cons.prems have "Suc k' < length fs" by simp
    from Cons.IH[OF this] Suc show ?thesis by simp
  qed
qed

text \<open>
  C2.  When no instance has an explicit base id and every instance resolves, the
  engine returns the candidates sorted by ascending window (a stable sort), the first at
  \<open>max assembly_base_id 1\<close> and each next one at the base id before it plus the
  window before it.
\<close>

theorem no_explicit_ids_back_to_back:
  assumes "\<forall>i\<in>set insts. base_id i = None"
    and "list_all2 (resolves (max abid 1) awin) insts ts"
    and "out = place (max abid 1) (sort_key c_window ts)"
  shows "compute_base_ids abid awin insts = Inr out \<and>
         sorted (map c_window out) \<and>
         (out \<noteq> [] \<longrightarrow> c_base (hd out) = Some (max abid 1)) \<and>
         (\<forall>k. Suc k < length out \<longrightarrow>
            c_base (out ! Suc k) = Some (base_of (out ! k) + c_window (out ! k)))"
proof -
  have id: "(if abid \<le> 0 then 1 else abid) = max abid 1" by simp
  have none: "\<forall>t\<in>set ts. base_id (c_inst t) = None"
  proof
    fix t assume "t \<in> set ts"
    from list_all2_right[OF assms(2) this] obtain i where
      i: "i \<in> set insts" "resolves (max abid 1) awin i t" by blast
    from resolves_fields(1)[OF i(2)] i(1) assms(1) show "base_id (c_inst t) = None" by simp
  qed
  then have f: "filter (\<lambda>t. base_id (c_inst t) \<noteq> None) ts = []"
    "filter (\<lambda>t. base_id (c_inst t) = None) ts = ts"
    by (simp_all add: filter_empty_conv filter_id_conv)
  from pass1_complete[OF assms(2), of "[]" "[]"] f
  have p1: "pass1 (max abid 1) awin insts [] [] = Inr ([], ts)" by simp
  have "pass3 0 0 ''NONE'' (sort_key c_base []) = Inr ()" by simp
  from allocate_merge2[OF this, of "max abid 1" ts]
  have al: "allocate (max abid 1) [] ts = Inr out" by (simp add: assms(3))
  have 1: "compute_base_ids abid awin insts = Inr out"
    unfolding compute_base_ids_def Let_def id by (simp add: p1 al)
  have 2: "sorted (map c_window out)"
    unfolding assms(3) place_windows by (rule sorted_sort_key)
  have ne: "out \<noteq> [] \<Longrightarrow> sort_key c_window ts \<noteq> []"
    unfolding assms(3) by (cases "sort_key c_window ts") auto
  have 3: "out \<noteq> [] \<longrightarrow> c_base (hd out) = Some (max abid 1)"
    using ne place_hd unfolding assms(3) by blast
  have 4: "\<forall>k. Suc k < length out \<longrightarrow>
            c_base (out ! Suc k) = Some (base_of (out ! k) + c_window (out ! k))"
    unfolding assms(3) using place_next by (simp add: place_length)
  from 1 2 3 4 show ?thesis by blast
qed

text \<open>
  Two instances with the windows 30 and \<open>0x10\<close> under the assembly base id 0:
  the smaller window comes first, at 1, the other at 17.
\<close>

theorem no_explicit_ids_back_to_back_witness:
  "compute_base_ids 0 100 [\<lparr>inst_name = ''P'', inst_type = ''T'', base_id = None,
      base_id_window = Some ''30'', component_object = None\<rparr>, \<lparr>inst_name = ''Q'',
      inst_type = ''T'', base_id = None, base_id_window = Some ''0x10'', component_object =
      None\<rparr>] = Inr [\<lparr>c_name = ''Q'', c_base = Some 1, c_window = 16, c_inst =
      \<lparr>inst_name = ''Q'', inst_type = ''T'', base_id = None, base_id_window = Some
      ''0x10'', component_object = None\<rparr>, c_range = None, c_amount = None\<rparr>,
      \<lparr>c_name = ''P'', c_base = Some 17, c_window = 30, c_inst = \<lparr>inst_name =
      ''P'', inst_type = ''T'', base_id = None, base_id_window = Some ''30'', component_object =
      None\<rparr>, c_range = None, c_amount = None\<rparr>] \<and>
   sorted (map c_window [\<lparr>c_name = ''Q'', c_base = Some 1, c_window = 16, c_inst =
       \<lparr>inst_name = ''Q'', inst_type = ''T'', base_id = None, base_id_window = Some
       ''0x10'', component_object = None\<rparr>, c_range = None, c_amount = None\<rparr>,
       \<lparr>c_name = ''P'', c_base = Some 17, c_window = 30, c_inst = \<lparr>inst_name =
       ''P'', inst_type = ''T'', base_id = None, base_id_window = Some ''30'', component_object
       = None\<rparr>, c_range = None, c_amount = None\<rparr>]) \<and>
   c_base (hd [\<lparr>c_name = ''Q'', c_base = Some 1, c_window = 16, c_inst =
       \<lparr>inst_name = ''Q'', inst_type = ''T'', base_id = None, base_id_window = Some
       ''0x10'', component_object = None\<rparr>, c_range = None, c_amount = None\<rparr>,
       \<lparr>c_name = ''P'', c_base = Some 17, c_window = 30, c_inst = \<lparr>inst_name =
       ''P'', inst_type = ''T'', base_id = None, base_id_window = Some ''30'', component_object
       = None\<rparr>, c_range = None, c_amount = None\<rparr>]) = Some 1 \<and>
   c_base ([\<lparr>c_name = ''Q'', c_base = Some 1, c_window = 16, c_inst = \<lparr>inst_name =
       ''Q'', inst_type = ''T'', base_id = None, base_id_window = Some ''0x10'',
       component_object = None\<rparr>, c_range = None, c_amount = None\<rparr>, \<lparr>c_name
       = ''P'', c_base = Some 17, c_window = 30, c_inst = \<lparr>inst_name = ''P'', inst_type =
       ''T'', base_id = None, base_id_window = Some ''30'', component_object = None\<rparr>,
       c_range = None, c_amount = None\<rparr>] ! 1) = Some (1 + 16)"
proof -
  have r1: "set_base_id_list 1 100 \<lparr>inst_name = ''P'', inst_type = ''T'', base_id = None,
      base_id_window = Some ''30'', component_object = None\<rparr> = Inr (\<lparr>c_name =
      ''P'', c_base = None, c_window = 30, c_inst = \<lparr>inst_name = ''P'', inst_type =
      ''T'', base_id = None, base_id_window = Some ''30'', component_object = None\<rparr>,
      c_range = None, c_amount = None\<rparr>, [WindowFromInstance ''P'' 30])"
    by code_simp
  have r2: "set_base_id_list 1 100 \<lparr>inst_name = ''Q'', inst_type = ''T'', base_id = None,
      base_id_window = Some ''0x10'', component_object = None\<rparr> = Inr (\<lparr>c_name =
      ''Q'', c_base = None, c_window = 16, c_inst = \<lparr>inst_name = ''Q'', inst_type =
      ''T'', base_id = None, base_id_window = Some ''0x10'', component_object = None\<rparr>,
      c_range = None, c_amount = None\<rparr>, [WindowFromInstance ''Q'' 16])"
    by code_simp
  have m: "max (0::int) 1 = 1" by simp
  from r1 r2 have la: "list_all2 (resolves (max 0 1) 100) [\<lparr>inst_name = ''P'', inst_type
      = ''T'', base_id = None, base_id_window = Some ''30'', component_object = None\<rparr>,
      \<lparr>inst_name = ''Q'', inst_type = ''T'', base_id = None, base_id_window = Some
      ''0x10'', component_object = None\<rparr>] [\<lparr>c_name = ''P'', c_base = None,
      c_window = 30, c_inst = \<lparr>inst_name = ''P'', inst_type = ''T'', base_id = None,
      base_id_window = Some ''30'', component_object = None\<rparr>, c_range = None, c_amount =
      None\<rparr>, \<lparr>c_name = ''Q'', c_base = None, c_window = 16, c_inst =
      \<lparr>inst_name = ''Q'', inst_type = ''T'', base_id = None, base_id_window = Some
      ''0x10'', component_object = None\<rparr>, c_range = None, c_amount = None\<rparr>]"
    unfolding m resolves_def by blast
  have nb: "\<forall>i\<in>set [\<lparr>inst_name = ''P'', inst_type = ''T'', base_id = None,
      base_id_window = Some ''30'', component_object = None\<rparr>, \<lparr>inst_name = ''Q'',
      inst_type = ''T'', base_id = None, base_id_window = Some ''0x10'', component_object =
      None\<rparr>]. base_id i = None" by simp
  have pl: "[\<lparr>c_name = ''Q'', c_base = Some 1, c_window = 16, c_inst = \<lparr>inst_name
      = ''Q'', inst_type = ''T'', base_id = None, base_id_window = Some ''0x10'',
      component_object = None\<rparr>, c_range = None, c_amount = None\<rparr>, \<lparr>c_name =
      ''P'', c_base = Some 17, c_window = 30, c_inst = \<lparr>inst_name = ''P'', inst_type =
      ''T'', base_id = None, base_id_window = Some ''30'', component_object = None\<rparr>,
      c_range = None, c_amount = None\<rparr>] = place (max 0 1) (sort_key c_window
      [\<lparr>c_name = ''P'', c_base = None, c_window = 30, c_inst = \<lparr>inst_name = ''P'',
      inst_type = ''T'', base_id = None, base_id_window = Some ''30'', component_object =
      None\<rparr>, c_range = None, c_amount = None\<rparr>, \<lparr>c_name = ''Q'', c_base =
      None, c_window = 16, c_inst = \<lparr>inst_name = ''Q'', inst_type = ''T'', base_id =
      None, base_id_window = Some ''0x10'', component_object = None\<rparr>, c_range = None,
      c_amount = None\<rparr>])"
    by simp
  from no_explicit_ids_back_to_back[OF nb la pl] show ?thesis
    by (simp add: base_of_def)
qed

subsection \<open>Collisions of explicit base ids\<close>




subsection \<open>Explicit base ids and the assembly base id\<close>

text \<open>
  C4 (amended).  In every assignment the engine returns, an instance with an explicit
  base id keeps a candidate whose base id is computed from the parsed absolute value and
  from the assembly base id raised to at least 1: their sum when the raised assembly
  base id exceeds the parsed value, and the parsed value otherwise.
\<close>

theorem explicit_base_id_resolution:
  assumes "compute_base_ids abid awin insts = Inr out"
    and "inst \<in> set insts" and "base_id inst = Some s"
  shows "\<exists>v t. py_int 0 s = Inr v \<and> t \<in> set out \<and> c_inst t = inst \<and>
               c_base t = Some (spec_final_base_id (max abid 1) \<bar>v\<bar>)"
proof -
  from compute_base_ids_ok[OF assms(1)] obtain ts where
    ts: "list_all2 (resolves (max abid 1) awin) insts ts" and
    out: "out = merge2 (max abid 1)
                   (sort_key c_base (filter (\<lambda>t. base_id (c_inst t) \<noteq> None) ts))
                   (sort_key c_window (filter (\<lambda>t. base_id (c_inst t) = None) ts))"
    by blast
  from list_all2_left[OF ts assms(2)] obtain t where
    t: "t \<in> set ts" "resolves (max abid 1) awin inst t" by blast
  from resolves_fields(1)[OF t(2)] have ci: "c_inst t = inst" .
  from resolves_base[OF t(2) assms(3)] obtain v where v: "py_int 0 s = Inr v"
    "c_base t = Some (if max abid 1 > \<bar>v\<bar> then max abid 1 + \<bar>v\<bar> else \<bar>v\<bar>)" by blast
  from t(1) ci assms(3) have
    "t \<in> set (sort_key c_base (filter (\<lambda>t. base_id (c_inst t) \<noteq> None) ts))" by simp
  from merge2_keeps_fixed[OF this] have "t \<in> set out" unfolding out .
  with v ci show ?thesis unfolding spec_final_base_id_def by blast
qed

text \<open>
  The explicit base id \<open>0x20\<close> under the assembly base id 100 becomes 132.
\<close>

theorem explicit_base_id_resolution_witness:
  "compute_base_ids 100 50 [\<lparr>inst_name = ''G'', inst_type = ''T'', base_id = Some
      ''0x20'', base_id_window = Some ''10'', component_object = None\<rparr>] = Inr
      [\<lparr>c_name = ''G'', c_base = Some 132, c_window = 10, c_inst = \<lparr>inst_name =
      ''G'', inst_type = ''T'', base_id = Some ''0x20'', base_id_window = Some ''10'',
      component_object = None\<rparr>, c_range = None, c_amount = None\<rparr>] \<and>
   (\<exists>v t. py_int 0 ''0x20'' = Inr v \<and> t \<in> set [\<lparr>c_name = ''G'', c_base =
       Some 132, c_window = 10, c_inst = \<lparr>inst_name = ''G'', inst_type = ''T'', base_id =
       Some ''0x20'', base_id_window = Some ''10'', component_object = None\<rparr>, c_range =
       None, c_amount = None\<rparr>] \<and> c_inst t = \<lparr>inst_name = ''G'', inst_type =
       ''T'', base_id = Some ''0x20'', base_id_window = Some ''10'', component_object =
       None\<rparr> \<and>
      c_base t = Some (spec_final_base_id (max 100 1) \<bar>v\<bar>)) \<and>
   spec_final_base_id (max 100 1) \<bar>32\<bar> = 132"
proof -
  have ev: "compute_base_ids 100 50 [\<lparr>inst_name = ''G'', inst_type = ''T'', base_id =
      Some ''0x20'', base_id_window = Some ''10'', component_object = None\<rparr>] = Inr
      [\<lparr>c_name = ''G'', c_base = Some 132, c_window = 10, c_inst = \<lparr>inst_name =
      ''G'', inst_type = ''T'', base_id = Some ''0x20'', base_id_window = Some ''10'',
      component_object = None\<rparr>, c_range = None, c_amount = None\<rparr>]" by code_simp
  have m: "\<lparr>inst_name = ''G'', inst_type = ''T'', base_id = Some ''0x20'', base_id_window
      = Some ''10'', component_object = None\<rparr> \<in> set [\<lparr>inst_name = ''G'',
      inst_type = ''T'', base_id = Some ''0x20'', base_id_window = Some ''10'', component_object
      = None\<rparr>]" by simp
  have b: "base_id \<lparr>inst_name = ''G'', inst_type = ''T'', base_id = Some ''0x20'',
      base_id_window = Some ''10'', component_object = None\<rparr> = Some ''0x20''" by simp
  have s: "spec_final_base_id (max 100 1) \<bar>32\<bar> = 132" by (simp add: spec_final_base_id_def)
  from explicit_base_id_resolution[OF ev m b] ev s show ?thesis by blast
qed

text \<open>
  With the assembly base id itself in place of the raised one the statement fails:
  under the assembly base id 0 the explicit base id 0 becomes 1, where 0 does not exceed
  0 and the parsed value would stay.
\<close>

theorem explicit_base_id_counterexample:
  "compute_base_ids 0 100 [\<lparr>inst_name = ''E'', inst_type = ''T'', base_id = Some ''0'',
      base_id_window = Some ''10'', component_object = None\<rparr>] = Inr [\<lparr>c_name =
      ''E'', c_base = Some 1, c_window = 10, c_inst = \<lparr>inst_name = ''E'', inst_type =
      ''T'', base_id = Some ''0'', base_id_window = Some ''10'', component_object =
      None\<rparr>, c_range = None, c_amount = None\<rparr>] \<and>
   py_int 0 ''0'' = Inr 0 \<and>
   Some (1::int) \<noteq> Some (spec_final_base_id 0 \<bar>0\<bar>)"
proof -
  have 1: "compute_base_ids 0 100 [\<lparr>inst_name = ''E'', inst_type = ''T'', base_id = Some
      ''0'', base_id_window = Some ''10'', component_object = None\<rparr>] = Inr
      [\<lparr>c_name = ''E'', c_base = Some 1, c_window = 10, c_inst = \<lparr>inst_name =
      ''E'', inst_type = ''T'', base_id = Some ''0'', base_id_window = Some ''10'',
      component_object = None\<rparr>, c_range = None, c_amount = None\<rparr>]" by code_simp
  have 2: "py_int 0 ''0'' = Inr 0" by code_simp
  have 3: "Some (1::int) \<noteq> Some (spec_final_base_id 0 \<bar>0\<bar>)"
    by (simp add: spec_final_base_id_def)
  from 1 2 3 show ?thesis by blast
qed

subsection \<open>An instance of an unknown component type\<close>

text \<open>
  C7.  An instance of a type that has no component definition, with no window of its
  own: \<^verbatim>\<open>create\<close> leaves it without a component object, its range is
  \<^verbatim>\<open>None\<close>, and the comparison of the assembly window with that range raises
  \<^verbatim>\<open>TypeError\<close>.  The same instance with a window of its own is allocated.
\<close>

theorem unknown_type_without_window_raises:
  "set_component_objects Map.empty [\<lparr>inst_name = ''u'', inst_type = ''T'', base_id =
      None, base_id_window = None, component_object = None\<rparr>] =
     ([\<lparr>inst_name = ''u'', inst_type = ''T'', base_id = None, base_id_window = None,
         component_object = None\<rparr>], [UnknownComponentType ''T'']) \<and>
   create_base_ids Map.empty True 0 100 [\<lparr>inst_name = ''u'', inst_type = ''T'', base_id =
       None, base_id_window = None, component_object = None\<rparr>] = Inl TypeError \<and>
   map_sum (\<lambda>e. e) (map (\<lambda>t. (c_name t, c_base t, c_window t))) (create_base_ids
       Map.empty True 0 100 [\<lparr>inst_name = ''u'', inst_type = ''T'', base_id = None,
       base_id_window = Some ''10'', component_object = None\<rparr>]) = Inr [(''u'', Some 1, 10)]"
proof -
  have 0: "set_component_objects Map.empty [\<lparr>inst_name = ''u'', inst_type = ''T'',
      base_id = None, base_id_window = None, component_object = None\<rparr>] =
     ([\<lparr>inst_name = ''u'', inst_type = ''T'', base_id = None, base_id_window = None,
         component_object = None\<rparr>], [UnknownComponentType ''T''])" by simp
  have 1: "create_base_ids Map.empty True 0 100 [\<lparr>inst_name = ''u'', inst_type = ''T'',
      base_id = None, base_id_window = None, component_object = None\<rparr>] = Inl TypeError"
      by code_simp
  have 2: "map_sum (\<lambda>e. e) (map (\<lambda>t. (c_name t, c_base t, c_window t)))
      (create_base_ids Map.empty True 0 100 [\<lparr>inst_name = ''u'', inst_type = ''T'',
      base_id = None, base_id_window = Some ''10'', component_object = None\<rparr>]) = Inr
      [(''u'', Some 1, 10)]"
    by code_simp
  from 0 1 2 show ?thesis by blast
qed

end
